theory Spec2Isabelle
  imports Complex_Main "HOL-Library.Word"
begin

section \<open>JavaScript values\<close>

text \<open>
  A JavaScript string is a sequence of UTF-16 code units; \<open>length\<close> counts code units.
  String literals of the source are written with \<open>js\<close>.
\<close>

type_synonym unit16 = "16 word"
type_synonym jsstring = "unit16 list"

definition cu :: "char \<Rightarrow> unit16" where
  "cu c = of_nat (of_char c)"

definition js :: "string \<Rightarrow> jsstring" where
  "js s = map cu s"

text \<open>
  Numbers. The code modelled here does no arithmetic on them: it tests them, compares them
  and turns them into strings. \<open>Whole i\<close> is an integer from \<open>-2^53\<close> up to \<open>2^53 - 1\<close>,
  kept as a signed word of 54 bits: each of them is a double, and is printed with all its
  digits (both zeros are \<open>Whole 0\<close>). \<open>Frac q s\<close> is any other finite double, with its
  value \<open>q\<close> and the digits \<open>s\<close> that \<open>Number.prototype.toString\<close> gives for it.
\<close>

type_synonym safe_int = "54 word"

datatype jsnum = NaN | PosInf | NegInf | Whole safe_int | Frac rat jsstring

text \<open>The values a parsed JSON body can hold, and \<open>undefined\<close> for what is absent.\<close>

datatype jsval =
    Undefined
  | Null
  | Bool bool
  | Num jsnum
  | Str jsstring
  | Arr "jsval list"
  | Obj "(jsstring \<times> jsval) list"

text \<open>What a statement can throw: a \<open>TypeError\<close> of the language, or a failed \<open>fetch\<close>.\<close>

datatype exn = TypeError | FetchError

definition and_then :: "exn + 'a \<Rightarrow> ('a \<Rightarrow> exn + 'b) \<Rightarrow> exn + 'b" where
  "and_then r f = (case r of Inl e \<Rightarrow> Inl e | Inr v \<Rightarrow> f v)"

fun truthy :: "jsval \<Rightarrow> bool" where
  "truthy Undefined = False"
| "truthy Null = False"
| "truthy (Bool b) = b"
| "truthy (Num NaN) = False"
| "truthy (Num (Whole i)) = (i \<noteq> 0)"
| "truthy (Num (Frac q s)) = (q \<noteq> 0)"
| "truthy (Num _) = True"
| "truthy (Str s) = (s \<noteq> [])"
| "truthy (Arr _) = True"
| "truthy (Obj _) = True"

section \<open>Moderation: the server-side sanitizer\<close>

definition BAD_WORDS :: "jsstring list" where
  "BAD_WORDS = map js
     [''fuck'', ''shit'', ''bitch'', ''bastard'', ''asshole'', ''dick'', ''pussy'', ''cunt'', ''slut'',
      ''whore'', ''faggot'', ''retard'', ''motherfucker'', ''fucker'', ''fucking'']"

text \<open>
  Both regular expressions carry the flag \<open>i\<close> and not \<open>u\<close>. A character then matches a
  pattern character when their canonical forms (upper case of the single code unit) are
  equal, and a code unit from 128 on is never canonicalised to one below 128. Every pattern
  character of this program is an ASCII letter, so only the ASCII part of the upper-case
  mapping decides a match; \<open>canonicalize\<close> is that part and leaves the other units alone.
\<close>

definition canonicalize :: "unit16 \<Rightarrow> unit16" where
  "canonicalize c = (if 97 \<le> c \<and> c \<le> 122 then c - 32 else c)"

text \<open>\<open>VOWEL_RE = /[aeiou]/gi\<close>: one character of the class.\<close>

definition isVowel :: "unit16 \<Rightarrow> bool" where
  "isVowel c = list_ex (\<lambda>v. canonicalize v = canonicalize c) (js ''aeiou'')"

text \<open>\<open>w.replace(VOWEL_RE, '*')\<close>: every match is one code unit, replaced by one.\<close>

definition maskWord :: "jsstring \<Rightarrow> jsstring" where
  "maskWord w = map (\<lambda>c. if isVowel c then cu CHR ''*'' else c) w"

text \<open>The word characters of \<open>\b\<close>: \<open>[A-Za-z0-9_]\<close>.\<close>

definition isWordChar :: "unit16 \<Rightarrow> bool" where
  "isWordChar c =
     ((97 \<le> c \<and> c \<le> 122) \<or> (65 \<le> c \<and> c \<le> 90) \<or> (48 \<le> c \<and> c \<le> 57) \<or> c = 95)"

text \<open>
  The assertion \<open>\b\<close> holds between two positions when exactly one of the characters on
  its sides is a word character; beyond either end of the input there is none.
\<close>

definition isWordBoundary :: "bool \<Rightarrow> bool \<Rightarrow> bool" where
  "isWordBoundary a b = (a \<noteq> b)"

fun headIsWord :: "jsstring \<Rightarrow> bool" where
  "headIsWord [] = False"
| "headIsWord (c # cs) = isWordChar c"

text \<open>The characters of a banned word, matched one by one ignoring case.\<close>

fun matchLiteral :: "jsstring \<Rightarrow> jsstring \<Rightarrow> bool" where
  "matchLiteral [] s = True"
| "matchLiteral (p # ps) [] = False"
| "matchLiteral (p # ps) (c # cs) = (canonicalize p = canonicalize c \<and> matchLiteral ps cs)"

text \<open>
  \<open>new RegExp(`\\b${bw}\\b`, 'gi')\<close> tried at the current position: \<open>pw\<close> tells whether the
  character before the position is a word character, \<open>s\<close> is the input from the position on.
  The banned words hold letters only, so the pattern is the literal between two \<open>\b\<close>.
\<close>

definition matchAt :: "jsstring \<Rightarrow> bool \<Rightarrow> jsstring \<Rightarrow> bool" where
  "matchAt bw pw s =
     (isWordBoundary pw (headIsWord s) \<and> matchLiteral bw s \<and>
      isWordBoundary (if bw = [] then pw else isWordChar (s ! (length bw - 1)))
        (headIsWord (drop (length bw) s)))"

text \<open>
  \<open>out.replace(re, (m) => maskWord(m))\<close> with a global expression: the input is scanned
  from the left, the leftmost match from the current position is replaced by the masked
  match and the scan goes on behind it. A match of the empty pattern would insert
  \<open>maskWord('')\<close>, nothing, and step over one character.
\<close>

function replace_re :: "jsstring \<Rightarrow> bool \<Rightarrow> jsstring \<Rightarrow> jsstring" where
  "replace_re bw pw [] = []"
| "replace_re bw pw (c # cs) =
     (if bw \<noteq> [] \<and> matchAt bw pw (c # cs)
      then maskWord (take (length bw) (c # cs)) @
           replace_re bw (isWordChar ((c # cs) ! (length bw - 1))) (drop (length bw) (c # cs))
      else c # replace_re bw (isWordChar c) cs)"
  by pat_completeness auto
termination
  by (relation "measure (\<lambda>(bw, pw, s). length s)") auto

text \<open>The loop over \<open>BAD_WORDS\<close>, on a string.\<close>

definition sanitize_str :: "jsstring \<Rightarrow> jsstring" where
  "sanitize_str text = fold (\<lambda>bw out. replace_re bw False out) BAD_WORDS text"

text \<open>
  \<open>sanitizeText\<close>: a falsy argument is returned as it is; a truthy one that is not a
  string has no method \<open>replace\<close>, and the call throws.
\<close>

fun sanitizeText :: "jsval \<Rightarrow> exn + jsval" where
  "sanitizeText (Str s) = (if s = [] then Inr (Str s) else Inr (Str (sanitize_str s)))"
| "sanitizeText v = (if \<not> truthy v then Inr v else Inl TypeError)"

subsection \<open>What the specification says of the sanitizer\<close>

text \<open>
  The definitions of this subsection are not code of the program: they state, in the words
  of its description, what the sanitizer is to do, and are compared with it below.

  A word is a maximal run of word characters. \<open>map_words g\<close> applies \<open>g\<close> to every word of
  a text and keeps the characters between the words.
\<close>

function map_words :: "(jsstring \<Rightarrow> jsstring) \<Rightarrow> jsstring \<Rightarrow> jsstring" where
  "map_words g [] = []"
| "map_words g (c # cs) =
     (if isWordChar c
      then g (takeWhile isWordChar (c # cs)) @ map_words g (dropWhile isWordChar (c # cs))
      else c # map_words g cs)"
  by pat_completeness auto
termination
  by (relation "measure (\<lambda>(g, s). length s)") (auto simp: length_dropWhile_le less_Suc_eq_le)

text \<open>A text equals a banned word, ignoring case.\<close>

definition ci_equal :: "jsstring \<Rightarrow> jsstring \<Rightarrow> bool" where
  "ci_equal bw w = (length bw = length w \<and> matchLiteral bw w)"

definition banned_in :: "jsstring list \<Rightarrow> jsstring \<Rightarrow> bool" where
  "banned_in bws w = list_ex (\<lambda>bw. ci_equal bw w) bws"

definition mask_banned :: "jsstring list \<Rightarrow> jsstring \<Rightarrow> jsstring" where
  "mask_banned bws w = (if banned_in bws w then maskWord w else w)"

definition mask_if :: "jsstring \<Rightarrow> jsstring \<Rightarrow> jsstring" where
  "mask_if bw w = (if ci_equal bw w then maskWord w else w)"

text \<open>
  A whole-word occurrence of \<open>bw\<close> in \<open>s\<close> at index \<open>j\<close>: the characters from \<open>j\<close> on spell
  \<open>bw\<close> ignoring case, no word character stands right before them and none right after.
  Position \<open>i\<close> is inside an occurrence of a word of \<open>bws\<close> when one of them occurs at some
  \<open>j \<le> i\<close> and reaches beyond \<open>i\<close>.
\<close>

definition lastIsWord :: "jsstring \<Rightarrow> bool" where
  "lastIsWord s = (s \<noteq> [] \<and> isWordChar (last s))"

definition occurs_at :: "jsstring \<Rightarrow> nat \<Rightarrow> jsstring \<Rightarrow> bool" where
  "occurs_at s j bw =
     (ci_equal bw (take (length bw) (drop j s)) \<and> \<not> lastIsWord (take j s) \<and>
      \<not> headIsWord (drop (j + length bw) s))"

definition in_occurrence :: "jsstring list \<Rightarrow> jsstring \<Rightarrow> nat \<Rightarrow> bool" where
  "in_occurrence bws s i =
     list_ex (\<lambda>bw. list_ex (\<lambda>j. i < j + length bw \<and> occurs_at s j bw) [0..<Suc i]) bws"

section \<open>Coercions of the language\<close>

text \<open>\<open>Number.prototype.toString\<close>: an integer below \<open>2^53\<close> in magnitude is written in decimal.\<close>

fun dec_digits :: "nat \<Rightarrow> jsstring" where
  "dec_digits n =
     (if n < 10 then [48 + of_nat n] else dec_digits (n div 10) @ [48 + of_nat (n mod 10)])"

declare dec_digits.simps [simp del]

fun Number_toString :: "jsnum \<Rightarrow> jsstring" where
  "Number_toString NaN = js ''NaN''"
| "Number_toString PosInf = js ''Infinity''"
| "Number_toString NegInf = js ''-Infinity''"
| "Number_toString (Whole i) =
     (if sint i < 0 then js ''-'' @ dec_digits (nat (- sint i)) else dec_digits (nat (sint i)))"
| "Number_toString (Frac q s) = s"

text \<open>
  \<open>String(v)\<close>, also what a template literal does with \<open>${v}\<close>. An array joins the strings of
  its elements with commas, \<open>null\<close> and \<open>undefined\<close> elements giving nothing. An object
  gives \<open>[object Object]\<close> through \<open>Object.prototype.toString\<close>; when it has a property
  \<open>toString\<close> of its own, which in a parsed JSON text is never a function, the conversion
  finds no method that yields a primitive and throws.
\<close>

fun String_js :: "jsval \<Rightarrow> exn + jsstring"
  and join_js :: "jsval list \<Rightarrow> exn + jsstring" where
  "String_js Undefined = Inr (js ''undefined'')"
| "String_js Null = Inr (js ''null'')"
| "String_js (Bool b) = Inr (if b then js ''true'' else js ''false'')"
| "String_js (Num n) = Inr (Number_toString n)"
| "String_js (Str s) = Inr s"
| "String_js (Arr xs) = join_js xs"
| "String_js (Obj kvs) =
     (if js ''toString'' \<in> set (map fst kvs) then Inl TypeError
      else Inr (js ''[object Object]''))"
| "join_js [] = Inr []"
| "join_js (x # xs) =
     (case (if x = Undefined \<or> x = Null then Inr [] else String_js x) of
        Inl e \<Rightarrow> Inl e
      | Inr a \<Rightarrow>
          (if xs = [] then Inr a
           else case join_js xs of Inl e \<Rightarrow> Inl e | Inr b \<Rightarrow> Inr (a @ js '','' @ b)))"

text \<open>White space and line terminators, as \<open>trim\<close> and the number grammar see them.\<close>

definition isWhiteSpace :: "unit16 \<Rightarrow> bool" where
  "isWhiteSpace c =
     (c \<in> {0x9, 0xA, 0xB, 0xC, 0xD, 0x20, 0xA0, 0x1680, 0x2028, 0x2029, 0x202F, 0x205F,
            0x3000, 0xFEFF} \<or> (0x2000 \<le> c \<and> c \<le> 0x200A))"

definition trim :: "jsstring \<Rightarrow> jsstring" where
  "trim s = rev (dropWhile isWhiteSpace (rev (dropWhile isWhiteSpace s)))"

text \<open>
  \<open>Number(v)\<close> on a string. Three cases are certain and written out: the empty string is
  \<open>0\<close>; a string of at most fifteen decimal digits is the integer it spells; a string with
  a character that no numeric literal can contain is \<open>NaN\<close>. What the grammar and the
  rounding to a double make of every other string is the parameter \<open>rest\<close>.
\<close>

definition isDigit :: "unit16 \<Rightarrow> bool" where
  "isDigit c = (48 \<le> c \<and> c \<le> 57)"

definition dec_value :: "jsstring \<Rightarrow> nat" where
  "dec_value s = foldl (\<lambda>n c. 10 * n + unat (c - 48)) 0 s"

definition numeric_char :: "unit16 \<Rightarrow> bool" where
  "numeric_char c =
     (isWhiteSpace c \<or> isDigit c \<or> c \<in> set (js ''+-.eEInfinityxXoObBabcdefABCDEF''))"

definition StringToNumber :: "(jsstring \<Rightarrow> jsnum) \<Rightarrow> jsstring \<Rightarrow> jsnum" where
  "StringToNumber rest s =
     (if s = [] then Whole 0
      else if list_all isDigit s \<and> length s \<le> 15 then Whole (of_nat (dec_value s))
      else if list_ex (\<lambda>c. \<not> numeric_char c) s then NaN
      else rest s)"

fun Number_js :: "(jsstring \<Rightarrow> jsnum) \<Rightarrow> jsval \<Rightarrow> exn + jsnum" where
  "Number_js rest Undefined = Inr NaN"
| "Number_js rest Null = Inr (Whole 0)"
| "Number_js rest (Bool b) = Inr (Whole (if b then 1 else 0))"
| "Number_js rest (Num n) = Inr n"
| "Number_js rest (Str s) = Inr (StringToNumber rest s)"
| "Number_js rest v = and_then (String_js v) (\<lambda>s. Inr (StringToNumber rest s))"

text \<open>
  Reading a property by one of the names this program uses (\<open>history\<close>, \<open>userTurn\<close>,
  \<open>mood\<close>, \<open>drama\<close>, \<open>output_text\<close>, \<open>output\<close>, \<open>content\<close>, \<open>text\<close>, \<open>title\<close>,
  \<open>author\<close>): no prototype defines any of them, so only an object's own properties
  answer. Reading from \<open>null\<close> or \<open>undefined\<close> throws.
\<close>

fun get_prop :: "jsval \<Rightarrow> jsstring \<Rightarrow> exn + jsval" where
  "get_prop Undefined k = Inl TypeError"
| "get_prop Null k = Inl TypeError"
| "get_prop (Obj kvs) k = Inr (case map_of kvs k of None \<Rightarrow> Undefined | Some v \<Rightarrow> v)"
| "get_prop v k = Inr Undefined"

text \<open>\<open>v[0]\<close>: the first element of an array, the first code unit of a string.\<close>

fun index0 :: "jsval \<Rightarrow> exn + jsval" where
  "index0 Undefined = Inl TypeError"
| "index0 Null = Inl TypeError"
| "index0 (Arr xs) = Inr (case xs of [] \<Rightarrow> Undefined | x # _ \<Rightarrow> x)"
| "index0 (Str s) = Inr (case s of [] \<Rightarrow> Undefined | c # _ \<Rightarrow> Str [c])"
| "index0 (Obj kvs) = get_prop (Obj kvs) (js ''0'')"
| "index0 v = Inr Undefined"

text \<open>A destructured property with a default: the default stands in for \<open>undefined\<close> only.\<close>

definition field :: "jsval \<Rightarrow> jsstring \<Rightarrow> jsval \<Rightarrow> exn + jsval" where
  "field body k dflt =
     and_then (get_prop body k) (\<lambda>v. Inr (if v = Undefined then dflt else v))"

text \<open>
  The spread \<open>...v\<close> inside an array literal: the elements of an array, the code points of
  a string (a surrogate pair is one element); anything else is not iterable.
\<close>

fun code_points :: "jsstring \<Rightarrow> jsstring list" where
  "code_points [] = []"
| "code_points [c] = [[c]]"
| "code_points (c # d # cs) =
     (if 0xD800 \<le> c \<and> c \<le> 0xDBFF \<and> 0xDC00 \<le> d \<and> d \<le> 0xDFFF
      then [c, d] # code_points cs
      else [c] # code_points (d # cs))"

fun spread :: "jsval \<Rightarrow> exn + jsval list" where
  "spread (Arr xs) = Inr xs"
| "spread (Str s) = Inr (map Str (code_points s))"
| "spread v = Inl TypeError"

section \<open>The game endpoint\<close>

definition mapDramaToTemp :: "jsval \<Rightarrow> exn + jsnum" where
  "mapDramaToTemp drama =
     and_then (String_js drama) (\<lambda>s. Inr
       (if s = js ''1'' then Frac (2 / 5) (js ''0.4'')
        else if s = js ''2'' then Frac (11 / 20) (js ''0.55'')
        else if s = js ''3'' then Frac (7 / 10) (js ''0.7'')
        else if s = js ''4'' then Frac (17 / 20) (js ''0.85'')
        else if s = js ''5'' then Whole 1
        else Frac (7 / 10) (js ''0.7'')))"

definition dramaInstructions :: "jsval \<Rightarrow> exn + jsstring" where
  "dramaInstructions drama =
     and_then (String_js drama) (\<lambda>s. Inr
       (if s = js ''1'' then
          js ''Narration style: Very plain and simple. Short sentences. Minimal description.''
        else if s = js ''2'' then
          js ''Narration style: Simple narration with occasional description.''
        else if s = js ''3'' then
          js ''Narration style: Balanced detail. Moderate description, engaging but not theatrical.''
        else if s = js ''4'' then
          js ''Narration style: Dramatic with vivid imagery and suspense.''
        else if s = js ''5'' then
          js ''Narration style: Highly dramatic and theatrical. Rich detail and powerful emotions.''
        else
          js ''Narration style: Balanced detail, engaging but not theatrical.''))"

definition baseStyle :: jsstring where
  "baseStyle = js
     (''You are the NARRATOR of a text-adventure game.\<newline>\<newline>STYLE:\<newline>- Present tense.\<newline>'' @
      ''- PG-13; no slurs or explicit sexual content.\<newline>'' @
      ''- Never mention you are an AI. Never break the fourth wall.\<newline>'' @
      ''- Always continue directly from the player's last turn.'')"

text \<open>\<open>styleMood\<close>: the clause is there when \<open>mood && mood !== 'default'\<close>.\<close>

definition styleMood :: "jsval \<Rightarrow> exn + jsstring" where
  "styleMood mood =
     (if truthy mood \<and> mood \<noteq> Str (js ''default'')
      then and_then (String_js mood) (\<lambda>m. Inr
             (js ''\<newline>\<newline>Mood/Genre: This is a '' @ m @ js '' story. Match your narration to '' @ m @
              js '' conventions, tone, and atmosphere.''))
      else Inr [])"

definition styleDrama :: "jsval \<Rightarrow> exn + jsstring" where
  "styleDrama drama = and_then (dramaInstructions drama) (\<lambda>d. Inr (js ''\<newline>\<newline>'' @ d))"

datatype payload =
  Payload (model: jsstring) (input: "jsval list") (max_output_tokens: nat) (temperature: jsnum)

definition system_message :: "jsstring \<Rightarrow> jsval" where
  "system_message text = Obj [(js ''role'', Str (js ''system'')), (js ''content'', Str text)]"

definition user_message :: "jsval \<Rightarrow> jsval" where
  "user_message userTurn = Obj [(js ''role'', Str (js ''user'')), (js ''content'', userTurn)]"

text \<open>The handler up to the call of the completion service: the request body to the payload.\<close>

definition build_payload :: "jsval \<Rightarrow> exn + payload" where
  "build_payload body =
     and_then (field body (js ''history'') (Arr [])) (\<lambda>history.
     and_then (field body (js ''userTurn'') (Str [])) (\<lambda>userTurn.
     and_then (field body (js ''mood'') (Str (js ''default''))) (\<lambda>mood.
     and_then (field body (js ''drama'') (Num (Whole 3))) (\<lambda>drama.
     and_then (styleMood mood) (\<lambda>sm.
     and_then (styleDrama drama) (\<lambda>sd.
     and_then (spread history) (\<lambda>hs.
     and_then (mapDramaToTemp drama) (\<lambda>t.
       Inr (Payload (js ''gpt-4o-mini'')
              ([system_message (baseStyle @ sm @ sd)] @ hs @ [user_message userTurn])
              220 t)))))))))"

text \<open>
  What comes back from \<open>fetch\<close> and \<open>response.text()\<close>: either of them fails, or there is a
  response with its flag \<open>ok\<close>, its body \<open>raw\<close>, and with it the value that
  \<open>JSON.parse(raw)\<close> gives, \<open>None\<close> when it throws.
\<close>

datatype upstream = Rejects | Response bool jsstring "jsval option"

datatype reply = Reply (status: nat) (json: jsval)

definition nullish :: "jsval \<Rightarrow> bool" where
  "nullish v = (v = Undefined \<or> v = Null)"

text \<open>\<open>data.output[0]?.content?.[0]?.text\<close>, for a truthy \<open>data.output\<close>.\<close>

definition nested_text :: "jsval \<Rightarrow> exn + jsval" where
  "nested_text out =
     and_then (index0 out) (\<lambda>a. if nullish a then Inr Undefined else
     and_then (get_prop a (js ''content'')) (\<lambda>b. if nullish b then Inr Undefined else
     and_then (index0 b) (\<lambda>c. if nullish c then Inr Undefined else
       get_prop c (js ''text''))))"

definition ellipsis :: jsstring where
  "ellipsis = [0x2026]"

definition FALLBACK :: jsstring where
  "FALLBACK = js ''The narrator hesitates, then continues cautiously. (Fallback)''"

text \<open>
  The inner \<open>try\<close>, from the parsed body on: the value of \<open>text\<close> when it ends normally.
  An assignment is the last step of its branch, so a throw leaves \<open>text\<close> as it was.
\<close>

definition extract_text :: "jsval \<Rightarrow> exn + jsval" where
  "extract_text data =
     and_then (get_prop data (js ''output_text'')) (\<lambda>ot. if truthy ot then Inr ot else
     and_then (get_prop data (js ''output'')) (\<lambda>out. if \<not> truthy out then Inr (Str ellipsis) else
     and_then (nested_text out) (\<lambda>t. if truthy t then Inr t else Inr (Str ellipsis))))"

definition text_after_try :: "jsval option \<Rightarrow> jsval" where
  "text_after_try parsed =
     (case parsed of
        None \<Rightarrow> Str ellipsis
      | Some data \<Rightarrow> (case extract_text data of Inl e \<Rightarrow> Str ellipsis | Inr v \<Rightarrow> v))"

text \<open>\<open>!text || text.trim() === ''\<close>; only a string has the method \<open>trim\<close>.\<close>

fun blank :: "jsval \<Rightarrow> exn + bool" where
  "blank (Str s) = Inr (s = [] \<or> trim s = [])"
| "blank v = (if \<not> truthy v then Inr True else Inl TypeError)"

text \<open>The handler from the answer of the completion service on.\<close>

fun respond :: "upstream \<Rightarrow> exn + reply" where
  "respond Rejects = Inl FetchError"
| "respond (Response ok raw parsed) =
     (if \<not> ok then Inr (Reply 500 (Obj [(js ''error'', Str (js ''OpenAI error: '' @ raw))]))
      else
        and_then (blank (text_after_try parsed)) (\<lambda>b.
        and_then (sanitizeText (if b then Str FALLBACK else text_after_try parsed)) (\<lambda>text.
          Inr (Reply 200 (Obj [(js ''text'', text)])))))"

text \<open>
  The body of the outer \<open>try\<close>: the requests sent to the completion service, and the reply
  or what was thrown. The service is a function of the payload.
\<close>

definition continue_try :: "(payload \<Rightarrow> upstream) \<Rightarrow> jsval \<Rightarrow> payload list \<times> (exn + reply)" where
  "continue_try fetch body =
     (case build_payload body of
        Inl e \<Rightarrow> ([], Inl e)
      | Inr p \<Rightarrow> ([p], respond (fetch p)))"

text \<open>\<open>app.post('/api/continue', ...)\<close>: the outer \<open>catch\<close> answers for everything thrown.\<close>

definition continue_handler :: "(payload \<Rightarrow> upstream) \<Rightarrow> jsval \<Rightarrow> payload list \<times> reply" where
  "continue_handler fetch body =
     (case continue_try fetch body of
        (sent, Inr r) \<Rightarrow> (sent, r)
      | (sent, Inl err) \<Rightarrow>
          (sent, Reply 500 (Obj [(js ''error'', Str (js ''Server error'')),
                                 (js ''text'', Str (js ''(Server fallback)''))])))"

section \<open>The storyboard: sharing a story\<close>

text \<open>
  \<open>JSON.stringify(v)\<close>, as the JSON value that the text it writes denotes: a number that is
  not finite is written \<open>null\<close>, so is an \<open>undefined\<close> element of an array, and a property
  whose value is \<open>undefined\<close> is left out. Every other value is written as it is.
\<close>

fun json_value :: "jsval \<Rightarrow> jsval"
  and json_elems :: "jsval list \<Rightarrow> jsval list"
  and json_props :: "(jsstring \<times> jsval) list \<Rightarrow> (jsstring \<times> jsval) list" where
  "json_value (Num NaN) = Null"
| "json_value (Num PosInf) = Null"
| "json_value (Num NegInf) = Null"
| "json_value (Arr xs) = Arr (json_elems xs)"
| "json_value (Obj kvs) = Obj (json_props kvs)"
| "json_value v = v"
| "json_elems [] = []"
| "json_elems (x # xs) = (if x = Undefined then Null else json_value x) # json_elems xs"
| "json_props [] = []"
| "json_props ((k, v) # kvs) =
     (if v = Undefined then json_props kvs else (k, json_value v) # json_props kvs)"

text \<open>
  What the handler does next: it answers with status 400, or it posts a body to the table
  \<open>stories\<close> of the store. The body is given as the JSON value of its text.
\<close>

datatype share_step = BadRequest | Insert jsval

text \<open>\<open>a || b\<close>.\<close>

definition or_js :: "jsval \<Rightarrow> jsval \<Rightarrow> jsval" where
  "or_js a b = (if truthy a then a else b)"

text \<open>
  \<open>app.post('/api/storyboard/share', ...)\<close> up to the call of the store with the body
  \<open>JSON.stringify([sanitized])\<close>: a request without title or content is answered with
  status 400.
\<close>

definition share_build :: "(jsstring \<Rightarrow> jsnum) \<Rightarrow> jsval \<Rightarrow> exn + share_step" where
  "share_build rest body =
     and_then (get_prop body (js ''title'')) (\<lambda>title.
     and_then (get_prop body (js ''mood'')) (\<lambda>mood.
     and_then (get_prop body (js ''drama'')) (\<lambda>drama.
     and_then (get_prop body (js ''content'')) (\<lambda>content.
     and_then (get_prop body (js ''author'')) (\<lambda>author.
       if \<not> truthy title \<or> \<not> truthy content then Inr BadRequest
       else
         and_then (sanitizeText title) (\<lambda>t.
         and_then (sanitizeText (or_js mood (Str []))) (\<lambda>m.
         and_then (Number_js rest drama) (\<lambda>n.
         and_then (sanitizeText content) (\<lambda>c.
         and_then (sanitizeText (or_js author (Str (js ''Anon'')))) (\<lambda>a.
           Inr (Insert (json_value (Arr
             [Obj [(js ''title'', t), (js ''mood'', m),
                   (js ''drama'', Num (if truthy (Num n) then n else Whole 3)),
                   (js ''content'', c), (js ''author'', a)]])))))))))))))"

section \<open>The sanitizer keeps the length\<close>

lemma length_maskWord: "length (maskWord w) = length w"
  by (simp add: maskWord_def)

lemma matchLiteral_length: "matchLiteral bw s \<Longrightarrow> length bw \<le> length s"
  by (induction bw s rule: matchLiteral.induct) auto

lemma length_replace_re: "length (replace_re bw pw s) = length s"
proof (induction bw pw s rule: replace_re.induct)
  case (1 bw pw)
  show ?case by simp
next
  case (2 bw pw c cs)
  show ?case
  proof (cases "bw \<noteq> [] \<and> matchAt bw pw (c # cs)")
    case True
    then have "length bw \<le> length (c # cs)"
      using matchLiteral_length [of bw "c # cs"] by (simp add: matchAt_def)
    with True 2(1) show ?thesis
      by (simp add: length_maskWord del: replace_re.simps add: replace_re.simps(2)[of bw pw c cs])
  next
    case False
    with 2(2) show ?thesis by auto
  qed
qed

lemma length_fold_replace_re:
  "length (fold (\<lambda>bw out. replace_re bw False out) bws s) = length s"
  by (induction bws arbitrary: s) (simp_all add: length_replace_re)

text \<open>
  C9. The sanitizer is length-preserving: the result of \<open>sanitizeText\<close> on a string has as
  many code units as the string, since a masked vowel becomes exactly one asterisk and every
  other character is kept.
\<close>

theorem sanitizeText_length:
  "\<exists>t. sanitizeText (Str x) = Inr (Str t) \<and> length t = length x"
  by (simp add: sanitize_str_def length_fold_replace_re)

section \<open>The sanitizer, word by word\<close>

subsection \<open>characters\<close>

lemma unat_canonicalize:
  "unat (canonicalize c) = (if 97 \<le> unat c \<and> unat c \<le> 122 then unat c - 32 else unat c)"
  by (simp add: canonicalize_def word_le_nat_alt unat_sub)

lemma isWordChar_unat:
  "isWordChar c = ((97 \<le> unat c \<and> unat c \<le> 122) \<or> (65 \<le> unat c \<and> unat c \<le> 90) \<or>
     (48 \<le> unat c \<and> unat c \<le> 57) \<or> unat c = 95)"
  by (simp add: isWordChar_def word_le_nat_alt word_unat_eq_iff)

lemma upper_nat_word:
  fixes a b :: nat
  assumes "(if 97 \<le> a \<and> a \<le> 122 then a - 32 else a) = (if 97 \<le> b \<and> b \<le> 122 then b - 32 else b)"
    and "(97 \<le> a \<and> a \<le> 122) \<or> (65 \<le> a \<and> a \<le> 90) \<or> (48 \<le> a \<and> a \<le> 57) \<or> a = 95"
  shows "(97 \<le> b \<and> b \<le> 122) \<or> (65 \<le> b \<and> b \<le> 90) \<or> (48 \<le> b \<and> b \<le> 57) \<or> b = 95"
proof (cases "97 \<le> a \<and> a \<le> 122")
  case True
  note A = this
  show ?thesis
  proof (cases "97 \<le> b \<and> b \<le> 122")
    case True
    then show ?thesis by simp
  next
    case False
    with A assms(1) have "b = a - 32" by simp
    with A show ?thesis by linarith
  qed
next
  case False
  note A = this
  show ?thesis
  proof (cases "97 \<le> b \<and> b \<le> 122")
    case True
    then show ?thesis by simp
  next
    case False
    with A assms(1) have "b = a" by (auto split: if_splits)
    with assms(2) show ?thesis by simp
  qed
qed

lemma canonicalize_word: "canonicalize p = canonicalize c \<Longrightarrow> isWordChar p \<Longrightarrow> isWordChar c"
proof -
  assume a: "canonicalize p = canonicalize c" and w: "isWordChar p"
  from a have "unat (canonicalize p) = unat (canonicalize c)" by simp
  then show ?thesis
    using w upper_nat_word [of "unat p" "unat c"]
    by (simp only: unat_canonicalize isWordChar_unat)
qed

lemma isVowel_iff: "isVowel c \<longleftrightarrow> c \<in> set (js ''aeiouAEIOU'')"
proof -
  have "unat (canonicalize c) \<in> {65, 69, 73, 79, 85} \<longleftrightarrow> unat c \<in> {97, 101, 105, 111, 117, 65, 69, 73, 79, 85}"
    unfolding unat_canonicalize by (cases "97 \<le> unat c \<and> unat c \<le> 122") auto
  moreover have "isVowel c \<longleftrightarrow> unat (canonicalize c) \<in> {65, 69, 73, 79, 85}"
    by (auto simp: isVowel_def js_def cu_def canonicalize_def[of "numeral _"] word_unat_eq_iff)
  moreover have "c \<in> set (js ''aeiouAEIOU'') \<longleftrightarrow> unat c \<in> {97, 101, 105, 111, 117, 65, 69, 73, 79, 85}"
    by (auto simp: js_def cu_def word_unat_eq_iff)
  ultimately show ?thesis by simp
qed

lemma canonicalize_vowel: "canonicalize p = canonicalize c \<Longrightarrow> isVowel p \<Longrightarrow> isVowel c"
  by (simp add: isVowel_def)

lemma vowel_word: "isVowel c \<Longrightarrow> isWordChar c"
  by (auto simp: isVowel_iff js_def cu_def isWordChar_def)

lemma star_not_word: "\<not> isWordChar (cu CHR ''*'')"
  by (simp add: cu_def isWordChar_def)

lemma star_not_vowel: "\<not> isVowel (cu CHR ''*'')"
  using star_not_word vowel_word by blast

subsection \<open>matching a banned word\<close>

lemma matchLiteral_append: "length bw \<le> length w \<Longrightarrow> matchLiteral bw (w @ r) = matchLiteral bw w"
  by (induction bw w rule: matchLiteral.induct) auto

lemma matchLiteral_take: "matchLiteral bw s \<Longrightarrow> matchLiteral bw (take (length bw) s)"
  by (induction bw s rule: matchLiteral.induct) auto

lemma matchLiteral_word:
  "matchLiteral bw s \<Longrightarrow> \<forall>x\<in>set bw. isWordChar x \<Longrightarrow> \<forall>x\<in>set (take (length bw) s). isWordChar x"
  by (induction bw s rule: matchLiteral.induct) (auto intro: canonicalize_word)

lemma matchLiteral_vowel:
  "matchLiteral bw s \<Longrightarrow> \<exists>x\<in>set bw. isVowel x \<Longrightarrow> \<exists>x\<in>set (take (length bw) s). isVowel x"
  by (induction bw s rule: matchLiteral.induct) (auto intro: canonicalize_vowel)

lemma ci_equal_vowel: "ci_equal bw w \<Longrightarrow> \<exists>x\<in>set bw. isVowel x \<Longrightarrow> \<exists>x\<in>set w. isVowel x"
  using matchLiteral_vowel [of bw w] by (simp add: ci_equal_def)

lemma matchLiteral_last_word:
  assumes "bw \<noteq> []" "\<forall>x\<in>set bw. isWordChar x" "matchLiteral bw s"
  shows "isWordChar (s ! (length bw - 1))"
proof -
  have len: "length bw \<le> length s" using assms(3) by (rule matchLiteral_length)
  with assms(1) have "length bw - 1 < length (take (length bw) s)" by (cases bw) auto
  then have "take (length bw) s ! (length bw - 1) \<in> set (take (length bw) s)"
    by (rule nth_mem)
  moreover have "take (length bw) s ! (length bw - 1) = s ! (length bw - 1)"
    using assms(1) by (cases bw) auto
  ultimately show ?thesis using matchLiteral_word [OF assms(3) assms(2)] by auto
qed

lemma headIsWord_iff: "headIsWord r \<longleftrightarrow> r \<noteq> [] \<and> isWordChar (hd r)"
  by (cases r) auto

lemma no_match_after_word:
  assumes "bw \<noteq> []" "\<forall>x\<in>set bw. isWordChar x"
  shows "\<not> matchAt bw True s"
proof
  assume m: "matchAt bw True s"
  then have h: "\<not> headIsWord s" and l: "matchLiteral bw s"
    by (auto simp: matchAt_def isWordBoundary_def)
  from assms(1) obtain p ps where bw: "bw = p # ps" by (cases bw) auto
  with l obtain c cs where s: "s = c # cs" and "canonicalize p = canonicalize c"
    by (cases s) auto
  with assms(2) bw have "isWordChar c" by (auto intro: canonicalize_word)
  with h s show False by simp
qed

lemma no_match_at_nonword: "\<not> isWordChar c \<Longrightarrow> \<not> matchAt bw False (c # cs)"
  by (simp add: matchAt_def isWordBoundary_def)

lemma matchAt_run:
  assumes bw: "bw \<noteq> []" "\<forall>x\<in>set bw. isWordChar x"
    and w: "w \<noteq> []" "\<forall>x\<in>set w. isWordChar x"
    and r: "\<not> headIsWord r"
  shows "matchAt bw False (w @ r) = ci_equal bw w"
proof
  assume m: "matchAt bw False (w @ r)"
  then have l: "matchLiteral bw (w @ r)" by (simp add: matchAt_def)
  have len: "length bw \<le> length (w @ r)" using l by (rule matchLiteral_length)
  have "isWordChar ((w @ r) ! (length bw - 1))"
    using bw l by (rule matchLiteral_last_word)
  with m bw(1) have e: "\<not> headIsWord (drop (length bw) (w @ r))"
    by (simp add: matchAt_def isWordBoundary_def)
  have "length bw = length w"
  proof (rule ccontr)
    assume ne: "length bw \<noteq> length w"
    show False
    proof (cases "length bw < length w")
      case True
      then have "drop (length bw) (w @ r) = (w ! length bw) # drop (Suc (length bw)) w @ r"
        by (simp add: Cons_nth_drop_Suc)
      with e w(2) True show False by simp
    next
      case False
      with ne have g: "length w < length bw" by simp
      with len have rne: "r \<noteq> []" by auto
      then have "hd r \<in> set (take (length bw) (w @ r))"
        using g by (cases r) (auto simp: take_Cons')
      with matchLiteral_word [OF l bw(2)] have "isWordChar (hd r)" by blast
      with rne r show False by (simp add: headIsWord_iff)
    qed
  qed
  with l show "ci_equal bw w" by (simp add: ci_equal_def matchLiteral_append)
next
  assume c: "ci_equal bw w"
  then have len: "length bw = length w" and l: "matchLiteral bw w" by (simp_all add: ci_equal_def)
  from w have hw: "headIsWord (w @ r)" by (cases w) auto
  from w len have "isWordChar ((w @ r) ! (length bw - 1))" by (simp add: nth_append)
  with hw l len r bw(1) show "matchAt bw False (w @ r)"
    by (simp add: matchAt_def isWordBoundary_def matchLiteral_append)
qed


subsection \<open>one pass of the loop\<close>

lemma replace_re_no_match:
  "\<not> matchAt bw pw (c # cs) \<Longrightarrow> replace_re bw pw (c # cs) = c # replace_re bw (isWordChar c) cs"
  by simp

lemma replace_re_match:
  "bw \<noteq> [] \<Longrightarrow> matchAt bw pw (c # cs) \<Longrightarrow>
   replace_re bw pw (c # cs) =
     maskWord (take (length bw) (c # cs)) @
     replace_re bw (isWordChar ((c # cs) ! (length bw - 1))) (drop (length bw) (c # cs))"
  by simp

lemma replace_after_word:
  assumes "bw \<noteq> []" "\<forall>x\<in>set bw. isWordChar x"
  shows "replace_re bw True s =
         takeWhile isWordChar s @ replace_re bw False (dropWhile isWordChar s)"
proof (induction s)
  case Nil
  show ?case by simp
next
  case (Cons c cs)
  have n: "\<not> matchAt bw True (c # cs)" using assms by (rule no_match_after_word)
  show ?case
  proof (cases "isWordChar c")
    case True
    with Cons replace_re_no_match [OF n] show ?thesis by (simp del: replace_re.simps)
  next
    case False
    then have "\<not> matchAt bw False (c # cs)" by (rule no_match_at_nonword)
    with False replace_re_no_match [OF n] replace_re_no_match [OF this]
    show ?thesis by (simp del: replace_re.simps)
  qed
qed

lemma replace_run:
  assumes bw: "bw \<noteq> []" "\<forall>x\<in>set bw. isWordChar x"
    and w: "w \<noteq> []" "\<forall>x\<in>set w. isWordChar x"
    and r: "\<not> headIsWord r"
  shows "replace_re bw False (w @ r) = mask_if bw w @ replace_re bw False r"
proof -
  from w(1) obtain c w' where wc: "w = c # w'" by (cases w) auto
  from r have r': "r = [] \<or> \<not> isWordChar (hd r)" by (simp add: headIsWord_iff)
  have after: "replace_re bw True r = replace_re bw False r"
    using r' by (cases r) (auto simp: replace_after_word [OF bw] simp del: replace_re.simps)
  have m: "matchAt bw False (w @ r) = ci_equal bw w"
    using bw w r by (rule matchAt_run)
  show ?thesis
  proof (cases "ci_equal bw w")
    case True
    then have len: "length bw = length w" by (simp add: ci_equal_def)
    from True m have "matchAt bw False (c # (w' @ r))" by (simp add: wc)
    with bw(1) have "replace_re bw False (c # (w' @ r)) =
        maskWord (take (length bw) (c # (w' @ r))) @
        replace_re bw (isWordChar ((c # (w' @ r)) ! (length bw - 1))) (drop (length bw) (c # (w' @ r)))"
      by (rule replace_re_match)
    moreover have "take (length bw) (c # (w' @ r)) = w" using len wc by simp
    moreover have "drop (length bw) (c # (w' @ r)) = r" using len wc by simp
    moreover have "isWordChar ((c # (w' @ r)) ! (length bw - 1))"
      using len w wc by (simp add: nth_append nth_Cons')
    ultimately show ?thesis using True after wc by (simp add: mask_if_def del: replace_re.simps)
  next
    case False
    with m have "\<not> matchAt bw False (c # (w' @ r))" by (simp add: wc)
    then have "replace_re bw False (c # (w' @ r)) = c # replace_re bw (isWordChar c) (w' @ r)"
      by (rule replace_re_no_match)
    moreover have "isWordChar c" using w wc by simp
    moreover have "takeWhile isWordChar (w' @ r) = w'" "dropWhile isWordChar (w' @ r) = r"
      using w wc r' by (simp_all add: takeWhile_eq_Nil_iff dropWhile_eq_self_iff)
    ultimately show ?thesis
      using False wc by (simp add: mask_if_def replace_after_word [OF bw] del: replace_re.simps)
  qed
qed

lemma headIsWord_dropWhile: "\<not> headIsWord (dropWhile isWordChar s)"
  by (induction s) auto

lemma replace_re_map_words:
  assumes bw: "bw \<noteq> []" "\<forall>x\<in>set bw. isWordChar x"
  shows "replace_re bw False s = map_words (mask_if bw) s"
proof (induction "mask_if bw" s rule: map_words.induct)
  case 1
  show ?case by simp
next
  case (2 c cs)
  show ?case
  proof (cases "isWordChar c")
    case True
    let ?w = "takeWhile isWordChar (c # cs)" and ?r = "dropWhile isWordChar (c # cs)"
    have "replace_re bw False (?w @ ?r) = mask_if bw ?w @ replace_re bw False ?r"
      using bw
    proof (rule replace_run)
      show "?w \<noteq> []" using True by simp
      show "\<forall>x\<in>set ?w. isWordChar x" by (auto dest: set_takeWhileD)
      show "\<not> headIsWord ?r" by (rule headIsWord_dropWhile)
    qed
    with True 2(1) show ?thesis by (simp del: replace_re.simps)
  next
    case False
    then have "\<not> matchAt bw False (c # cs)" by (rule no_match_at_nonword)
    with False 2(2) show ?thesis by (simp add: replace_re_no_match del: replace_re.simps)
  qed
qed


subsection \<open>maps over the words of a text\<close>

lemma map_words_nonword: "\<not> isWordChar c \<Longrightarrow> map_words g (c # cs) = c # map_words g cs"
  by simp

lemma map_words_word:
  "isWordChar c \<Longrightarrow> map_words g (c # cs) =
     g (takeWhile isWordChar (c # cs)) @ map_words g (dropWhile isWordChar (c # cs))"
  by simp

lemma headIsWord_map_words: "\<not> headIsWord r \<Longrightarrow> \<not> headIsWord (map_words g r)"
  by (cases r) auto

lemma takeWhile_append_stop: "takeWhile P r = [] \<Longrightarrow> takeWhile P (xs @ r) = takeWhile P xs"
  by (induction xs) auto

lemma dropWhile_append_stop: "dropWhile P r = r \<Longrightarrow> dropWhile P (xs @ r) = dropWhile P xs @ r"
  by (induction xs) auto

lemma map_words_append:
  assumes "\<not> headIsWord r"
  shows "map_words g (xs @ r) = map_words g xs @ map_words g r"
proof (induction g xs rule: map_words.induct)
  case (1 g)
  show ?case by simp
next
  case (2 g c cs)
  from assms have r: "takeWhile isWordChar r = []" "dropWhile isWordChar r = r"
    by (simp_all add: takeWhile_eq_Nil_iff dropWhile_eq_self_iff headIsWord_iff)
  show ?case
  proof (cases "isWordChar c")
    case True
    have t: "takeWhile isWordChar ((c # cs) @ r) = takeWhile isWordChar (c # cs)"
      using r(1) by (rule takeWhile_append_stop)
    have d: "dropWhile isWordChar ((c # cs) @ r) = dropWhile isWordChar (c # cs) @ r"
      using r(2) by (rule dropWhile_append_stop)
    have "map_words g ((c # cs) @ r) =
        g (takeWhile isWordChar ((c # cs) @ r)) @ map_words g (dropWhile isWordChar ((c # cs) @ r))"
      using True map_words_word [of c g "cs @ r"] by simp
    with t d 2(1) [OF True] map_words_word [OF True, of g cs] show ?thesis
      by (simp del: map_words.simps takeWhile.simps dropWhile.simps)
  next
    case False
    with 2(2) show ?thesis by simp
  qed
qed

lemma map_words_compose:
  "map_words g (map_words f s) = map_words (\<lambda>w. map_words g (f w)) s"
proof (induction f s rule: map_words.induct)
  case (1 f)
  show ?case by simp
next
  case (2 f c cs)
  show ?case
  proof (cases "isWordChar c")
    case True
    have "\<not> headIsWord (map_words f (dropWhile isWordChar (c # cs)))"
      by (rule headIsWord_map_words) (rule headIsWord_dropWhile)
    then have "map_words g (f (takeWhile isWordChar (c # cs)) @ map_words f (dropWhile isWordChar (c # cs)))
        = map_words g (f (takeWhile isWordChar (c # cs))) @
          map_words g (map_words f (dropWhile isWordChar (c # cs)))"
      by (rule map_words_append)
    with True 2(1) [OF True] show ?thesis
      by (simp only: map_words_word [OF True])
  next
    case False
    with 2(2) show ?thesis by simp
  qed
qed

lemma map_words_cong:
  assumes "\<And>w. w \<noteq> [] \<Longrightarrow> \<forall>x\<in>set w. isWordChar x \<Longrightarrow> f w = g w"
  shows "map_words f s = map_words g s"
  using assms
proof (induction f s rule: map_words.induct)
  case (1 f)
  show ?case by simp
next
  case (2 f c cs)
  show ?case
  proof (cases "isWordChar c")
    case True
    have "f (takeWhile isWordChar (c # cs)) = g (takeWhile isWordChar (c # cs))"
    proof (rule 2(3))
      show "takeWhile isWordChar (c # cs) \<noteq> []" using True by simp
      show "\<forall>x\<in>set (takeWhile isWordChar (c # cs)). isWordChar x"
        using set_takeWhileD by fast
    qed
    moreover have "map_words f (dropWhile isWordChar (c # cs)) =
        map_words g (dropWhile isWordChar (c # cs))"
    proof (rule 2(1) [OF True])
      fix w :: jsstring
      assume "w \<noteq> []" "\<forall>x\<in>set w. isWordChar x"
      then show "f w = g w" by (rule 2(3))
    qed
    ultimately show ?thesis
      by (simp only: map_words_word [OF True])
  next
    case False
    have "map_words f cs = map_words g cs"
    proof (rule 2(2) [OF False])
      fix w :: jsstring
      assume "w \<noteq> []" "\<forall>x\<in>set w. isWordChar x"
      then show "f w = g w" by (rule 2(3))
    qed
    with False show ?thesis by simp
  qed
qed

lemma map_words_run:
  assumes "w \<noteq> []" "\<forall>x\<in>set w. isWordChar x"
  shows "map_words g w = g w"
proof -
  from assms obtain c cs where w: "w = c # cs" and c: "isWordChar c" by (cases w) auto
  have "takeWhile isWordChar w = w" "dropWhile isWordChar w = []"
    using assms(2) by simp_all
  with map_words_word [OF c, of g cs] w show ?thesis by simp
qed

lemma map_words_id:
  assumes "\<And>w. set w \<subseteq> set s \<Longrightarrow> g w = w"
  shows "map_words g s = s"
  using assms
proof (induction g s rule: map_words.induct)
  case (1 g)
  show ?case by simp
next
  case (2 g c cs)
  show ?case
  proof (cases "isWordChar c")
    case True
    have a: "g (takeWhile isWordChar (c # cs)) = takeWhile isWordChar (c # cs)"
    proof (rule 2(3))
      show "set (takeWhile isWordChar (c # cs)) \<subseteq> set (c # cs)"
        using set_takeWhileD by fast
    qed
    have b: "map_words g (dropWhile isWordChar (c # cs)) = dropWhile isWordChar (c # cs)"
    proof (rule 2(1) [OF True])
      fix w assume "set w \<subseteq> set (dropWhile isWordChar (c # cs))"
      then have "set w \<subseteq> set (c # cs)" using set_dropWhileD by fast
      then show "g w = w" by (rule 2(3))
    qed
    from a b show ?thesis by (simp only: map_words_word [OF True] takeWhile_dropWhile_id)
  next
    case False
    have "map_words g cs = cs"
    proof (rule 2(2) [OF False])
      fix w assume "set w \<subseteq> set cs"
      then have "set w \<subseteq> set (c # cs)" by auto
      then show "g w = w" by (rule 2(3))
    qed
    with False show ?thesis by simp
  qed
qed

subsection \<open>the whole loop\<close>

lemma maskWord_no_vowel: "x \<in> set (maskWord w) \<Longrightarrow> \<not> isVowel x"
  by (auto simp: maskWord_def star_not_vowel)

lemma not_banned_no_vowel:
  assumes "\<forall>bw\<in>set bws. \<exists>x\<in>set bw. isVowel x" "\<forall>x\<in>set w. \<not> isVowel x"
  shows "\<not> banned_in bws w"
  using assms ci_equal_vowel by (fastforce simp: banned_in_def list_ex_iff)

lemma map_words_masked:
  assumes "\<forall>bw\<in>set bws. \<exists>x\<in>set bw. isVowel x"
  shows "map_words (mask_banned bws) (maskWord w) = maskWord w"
proof (rule map_words_id)
  fix v assume "set v \<subseteq> set (maskWord w)"
  then have "\<forall>x\<in>set v. \<not> isVowel x" by (auto dest: maskWord_no_vowel)
  with assms have "\<not> banned_in bws v" by (rule not_banned_no_vowel)
  then show "mask_banned bws v = v" by (simp add: mask_banned_def)
qed

lemma fold_replace_re:
  assumes "\<forall>bw\<in>set bws. bw \<noteq> [] \<and> (\<forall>x\<in>set bw. isWordChar x) \<and> (\<exists>x\<in>set bw. isVowel x)"
  shows "fold (\<lambda>bw out. replace_re bw False out) bws s = map_words (mask_banned bws) s"
  using assms
proof (induction bws arbitrary: s)
  case Nil
  have "map_words (mask_banned []) s = s"
    by (rule map_words_id) (simp add: mask_banned_def banned_in_def)
  then show ?case by simp
next
  case (Cons bw bws)
  then have bw: "bw \<noteq> []" "\<forall>x\<in>set bw. isWordChar x"
    and v: "\<forall>b\<in>set bws. \<exists>x\<in>set b. isVowel x" by auto
  have "fold (\<lambda>bw out. replace_re bw False out) (bw # bws) s =
        map_words (mask_banned bws) (map_words (mask_if bw) s)"
    using Cons by (simp add: replace_re_map_words [OF bw])
  also have "\<dots> = map_words (\<lambda>w. map_words (mask_banned bws) (mask_if bw w)) s"
    by (rule map_words_compose)
  also have "\<dots> = map_words (mask_banned (bw # bws)) s"
  proof (rule map_words_cong)
    fix w :: jsstring
    assume w: "w \<noteq> []" "\<forall>x\<in>set w. isWordChar x"
    show "map_words (mask_banned bws) (mask_if bw w) = mask_banned (bw # bws) w"
    proof (cases "ci_equal bw w")
      case True
      with v show ?thesis
        by (simp add: mask_if_def mask_banned_def banned_in_def map_words_masked)
    next
      case False
      with w show ?thesis
        by (simp add: mask_if_def map_words_run) (simp add: mask_banned_def banned_in_def)
    qed
  qed
  finally show ?case .
qed

lemma BAD_WORDS_letters:
  "\<forall>bw\<in>set BAD_WORDS. bw \<noteq> [] \<and> (\<forall>x\<in>set bw. isWordChar x) \<and> (\<exists>x\<in>set bw. isVowel x)"
  by (simp add: BAD_WORDS_def js_def cu_def isWordChar_def isVowel_iff)

lemma sanitize_str_words: "sanitize_str s = map_words (mask_banned BAD_WORDS) s"
  unfolding sanitize_str_def using BAD_WORDS_letters by (rule fold_replace_re)

lemma sanitize_str_idem: "sanitize_str (sanitize_str s) = sanitize_str s"
proof -
  have v: "\<forall>bw\<in>set BAD_WORDS. \<exists>x\<in>set bw. isVowel x" using BAD_WORDS_letters by blast
  have "map_words (mask_banned BAD_WORDS) (map_words (mask_banned BAD_WORDS) s) =
        map_words (\<lambda>w. map_words (mask_banned BAD_WORDS) (mask_banned BAD_WORDS w)) s"
    by (rule map_words_compose)
  also have "\<dots> = map_words (mask_banned BAD_WORDS) s"
  proof (rule map_words_cong)
    fix w :: jsstring
    assume w: "w \<noteq> []" "\<forall>x\<in>set w. isWordChar x"
    show "map_words (mask_banned BAD_WORDS) (mask_banned BAD_WORDS w) = mask_banned BAD_WORDS w"
    proof (cases "banned_in BAD_WORDS w")
      case True
      with v show ?thesis by (simp add: mask_banned_def map_words_masked)
    next
      case False
      with w show ?thesis by (simp add: mask_banned_def map_words_run)
    qed
  qed
  finally show ?thesis by (simp add: sanitize_str_words)
qed


subsection \<open>positions inside occurrences\<close>

lemma in_occurrence_iff:
  "in_occurrence bws s i \<longleftrightarrow> (\<exists>bw\<in>set bws. \<exists>j\<le>i. i < j + length bw \<and> occurs_at s j bw)"
proof -
  have "\<And>P. (\<exists>j\<in>set [0..<Suc i]. P j) = (\<exists>j\<le>i. P j)"
    by (simp only: set_upt Bex_def atLeastLessThan_iff less_Suc_eq_le) simp
  then show ?thesis by (simp only: in_occurrence_def list_ex_iff)
qed

lemma occurs_at_bounds:
  assumes "bw \<noteq> []" "occurs_at s j bw"
  shows "j + length bw \<le> length s"
proof -
  from assms(2) have "length bw = min (length s - j) (length bw)"
    by (simp add: occurs_at_def ci_equal_def)
  moreover from assms(1) have "0 < length bw" by simp
  ultimately show ?thesis by arith
qed

lemma occurs_at_word:
  assumes bw: "bw \<noteq> []" "\<forall>x\<in>set bw. isWordChar x"
    and o: "occurs_at s j bw" and k: "j \<le> k" "k < j + length bw"
  shows "isWordChar (s ! k)"
proof -
  let ?m = "take (length bw) (drop j s)"
  from bw(1) o have len: "j + length bw \<le> length s" by (rule occurs_at_bounds)
  from o have "matchLiteral bw ?m" by (simp add: occurs_at_def ci_equal_def)
  then have "\<forall>x\<in>set (take (length bw) ?m). isWordChar x" using bw(2) by (rule matchLiteral_word)
  then have all: "\<forall>x\<in>set ?m. isWordChar x" by simp
  have "k - j < length ?m" using k len by simp
  then have "?m ! (k - j) \<in> set ?m" by (rule nth_mem)
  moreover have "?m ! (k - j) = s ! k" using k len by simp
  ultimately show ?thesis using all by auto
qed

lemma lastIsWord_take:
  "0 < j \<Longrightarrow> j \<le> length s \<Longrightarrow> lastIsWord (take j s) = isWordChar (s ! (j - 1))"
proof -
  assume j: "0 < j" "j \<le> length s"
  then have ne: "take j s \<noteq> []" by auto
  then have "last (take j s) = take j s ! (length (take j s) - 1)" by (rule last_conv_nth)
  also have "\<dots> = s ! (j - 1)" using j by simp
  finally show ?thesis using ne by (simp add: lastIsWord_def)
qed

lemma occurs_at_shift:
  assumes "p \<noteq> []" "\<not> isWordChar (last p)"
  shows "occurs_at (p @ t) (length p + j) bw = occurs_at t j bw"
proof -
  have "lastIsWord (p @ take j t) = lastIsWord (take j t)"
    using assms by (cases "take j t = []") (auto simp: lastIsWord_def)
  then show ?thesis by (simp add: occurs_at_def add.assoc)
qed

lemma in_occurrence_after:
  assumes bws: "\<forall>bw\<in>set bws. bw \<noteq> [] \<and> (\<forall>x\<in>set bw. isWordChar x)"
    and p: "p \<noteq> []" "\<not> isWordChar (last p)" and i: "length p \<le> i"
  shows "in_occurrence bws (p @ t) i = in_occurrence bws t (i - length p)"
proof
  assume "in_occurrence bws (p @ t) i"
  then obtain bw j where b: "bw \<in> set bws" and j: "j \<le> i" "i < j + length bw"
    and o: "occurs_at (p @ t) j bw" by (auto simp: in_occurrence_iff)
  have "length p \<le> j"
  proof (rule ccontr)
    assume "\<not> length p \<le> j"
    then have "j \<le> length p - 1" "length p - 1 < j + length bw" using i j by auto
    with occurs_at_word [OF _ _ o] bws b have "isWordChar ((p @ t) ! (length p - 1))" by blast
    with p show False by (simp add: nth_append last_conv_nth)
  qed
  then obtain j' where j': "j = length p + j'" using le_Suc_ex by blast
  with o have "occurs_at t j' bw" by (simp add: occurs_at_shift [OF p])
  with b j j' i show "in_occurrence bws t (i - length p)"
    by (auto simp: in_occurrence_iff intro!: bexI [of _ bw] exI [of _ j'])
next
  assume "in_occurrence bws t (i - length p)"
  then obtain bw j where b: "bw \<in> set bws" and j: "j \<le> i - length p" "i - length p < j + length bw"
    and o: "occurs_at t j bw" by (auto simp: in_occurrence_iff)
  from o have "occurs_at (p @ t) (length p + j) bw" by (simp add: occurs_at_shift [OF p])
  with b j i show "in_occurrence bws (p @ t) i"
    by (auto simp: in_occurrence_iff intro!: bexI [of _ bw] exI [of _ "length p + j"])
qed

lemma occurs_at_0_matchAt:
  assumes bw: "bw \<noteq> []" "\<forall>x\<in>set bw. isWordChar x"
  shows "occurs_at s 0 bw = matchAt bw False s"
proof
  assume o: "occurs_at s 0 bw"
  then have l: "matchLiteral bw (take (length bw) s)" and len: "length bw \<le> length s"
    and e: "\<not> headIsWord (drop (length bw) s)"
    by (auto simp: occurs_at_def ci_equal_def)
  from l have l': "matchLiteral bw s"
    using matchLiteral_append [of bw "take (length bw) s" "drop (length bw) s"] len by simp
  from bw(1) len obtain c cs where s: "s = c # cs" by (cases s) auto
  have "isWordChar (s ! 0)"
    using bw o by (rule occurs_at_word) (use bw(1) in auto)
  with s have h: "headIsWord s" by simp
  have "isWordChar (s ! (length bw - 1))" using bw l' by (rule matchLiteral_last_word)
  with h l' e bw(1) show "matchAt bw False s" by (simp add: matchAt_def isWordBoundary_def)
next
  assume m: "matchAt bw False s"
  then have l: "matchLiteral bw s" by (simp add: matchAt_def)
  then have len: "length bw \<le> length s" by (rule matchLiteral_length)
  have "isWordChar (s ! (length bw - 1))" using bw l by (rule matchLiteral_last_word)
  with m bw(1) have "\<not> headIsWord (drop (length bw) s)"
    by (simp add: matchAt_def isWordBoundary_def)
  with l len show "occurs_at s 0 bw"
    by (simp add: occurs_at_def ci_equal_def matchLiteral_take lastIsWord_def)
qed

lemma in_occurrence_run:
  assumes bws: "\<forall>bw\<in>set bws. bw \<noteq> [] \<and> (\<forall>x\<in>set bw. isWordChar x)"
    and w: "w \<noteq> []" "\<forall>x\<in>set w. isWordChar x" and r: "\<not> headIsWord r"
    and i: "i < length w"
  shows "in_occurrence bws (w @ r) i = banned_in bws w"
proof
  assume "in_occurrence bws (w @ r) i"
  then obtain bw j where b: "bw \<in> set bws" and j: "j \<le> i" "i < j + length bw"
    and o: "occurs_at (w @ r) j bw" by (auto simp: in_occurrence_iff)
  from b bws have bw: "bw \<noteq> []" "\<forall>x\<in>set bw. isWordChar x" by auto
  have "j = 0"
  proof (rule ccontr)
    assume "j \<noteq> 0"
    then have j0: "0 < j" by simp
    with j i have "lastIsWord (take j (w @ r)) = isWordChar ((w @ r) ! (j - 1))"
      by (intro lastIsWord_take) auto
    moreover have "isWordChar ((w @ r) ! (j - 1))" using w j i j0 by (simp add: nth_append)
    ultimately show False using o by (simp add: occurs_at_def)
  qed
  with o have "matchAt bw False (w @ r)" by (simp add: occurs_at_0_matchAt [OF bw])
  then have "ci_equal bw w" by (simp add: matchAt_run [OF bw w r])
  with b show "banned_in bws w" by (auto simp: banned_in_def list_ex_iff)
next
  assume "banned_in bws w"
  then obtain bw where b: "bw \<in> set bws" and c: "ci_equal bw w"
    by (auto simp: banned_in_def list_ex_iff)
  from b bws have bw: "bw \<noteq> []" "\<forall>x\<in>set bw. isWordChar x" by auto
  from c have "matchAt bw False (w @ r)" by (simp add: matchAt_run [OF bw w r])
  then have "occurs_at (w @ r) 0 bw" by (simp add: occurs_at_0_matchAt [OF bw])
  moreover from c have "length bw = length w" by (simp add: ci_equal_def)
  ultimately show "in_occurrence bws (w @ r) i"
    using b i by (auto simp: in_occurrence_iff intro!: bexI [of _ bw] exI [of _ 0])
qed

lemma in_occurrence_word:
  assumes bws: "\<forall>bw\<in>set bws. bw \<noteq> [] \<and> (\<forall>x\<in>set bw. isWordChar x)"
    and o: "in_occurrence bws s i"
  shows "isWordChar (s ! i)"
proof -
  from o obtain bw j where b: "bw \<in> set bws" and j: "j \<le> i" "i < j + length bw"
    and oa: "occurs_at s j bw" by (auto simp: in_occurrence_iff)
  from b bws have "bw \<noteq> []" "\<forall>x\<in>set bw. isWordChar x" by auto
  then show ?thesis using oa j by (rule occurs_at_word)
qed

lemma in_occurrence_Cons:
  assumes bws: "\<forall>bw\<in>set bws. bw \<noteq> [] \<and> (\<forall>x\<in>set bw. isWordChar x)"
    and d: "\<not> isWordChar d"
  shows "in_occurrence bws (d # t) (Suc k) = in_occurrence bws t k"
  using in_occurrence_after [OF bws, of "[d]" "Suc k" t] d by simp

lemma in_occurrence_after_run:
  assumes bws: "\<forall>bw\<in>set bws. bw \<noteq> [] \<and> (\<forall>x\<in>set bw. isWordChar x)"
    and r: "\<not> headIsWord r" and i: "length w \<le> i" "i < length (w @ r)"
  shows "in_occurrence bws (w @ r) i = in_occurrence bws r (i - length w)"
proof -
  from i obtain d r' where rd: "r = d # r'" by (cases r) auto
  with r have d: "\<not> isWordChar d" by simp
  show ?thesis
  proof (cases "i = length w")
    case True
    have "\<not> in_occurrence bws (w @ r) i"
      using in_occurrence_word [OF bws, of "w @ r" i] True d rd by auto
    moreover have "\<not> in_occurrence bws r (i - length w)"
      using in_occurrence_word [OF bws, of r 0] True d rd by auto
    ultimately show ?thesis by simp
  next
    case False
    with i obtain k where k: "i = length w + Suc k" using le_Suc_ex
      by (metis add_Suc_right less_iff_Suc_add order_le_less)
    have "in_occurrence bws ((w @ [d]) @ r') i = in_occurrence bws r' (i - length (w @ [d]))"
      using bws by (rule in_occurrence_after) (use d k in auto)
    moreover have "in_occurrence bws (d # r') (Suc k) = in_occurrence bws r' k"
      using bws d by (rule in_occurrence_Cons)
    ultimately show ?thesis using k rd by simp
  qed
qed

lemma length_mask_banned: "length (mask_banned bws w) = length w"
  by (simp add: mask_banned_def length_maskWord)

lemma length_map_words:
  "(\<And>w. length (g w) = length w) \<Longrightarrow> length (map_words g s) = length s"
proof (induction g s rule: map_words.induct)
  case (1 g)
  show ?case by simp
next
  case (2 g c cs)
  show ?case
  proof (cases "isWordChar c")
    case True
    have "length (takeWhile isWordChar (c # cs) @ dropWhile isWordChar (c # cs)) = length (c # cs)"
      by (simp only: takeWhile_dropWhile_id)
    with True 2(1) [OF True 2(3)] 2(3) show ?thesis
      by (simp only: map_words_word [OF True] length_append)
  next
    case False
    with 2(2) [OF False 2(3)] show ?thesis by simp
  qed
qed

lemma nth_map_words:
  assumes bws: "\<forall>bw\<in>set bws. bw \<noteq> [] \<and> (\<forall>x\<in>set bw. isWordChar x)"
  shows "i < length s \<Longrightarrow>
    map_words (mask_banned bws) s ! i =
      (if in_occurrence bws s i \<and> isVowel (s ! i) then cu CHR ''*'' else s ! i)"
proof (induction "mask_banned bws" s arbitrary: i rule: map_words.induct)
  case 1
  then show ?case by simp
next
  case (2 c cs)
  show ?case
  proof (cases "isWordChar c")
    case False
    note c = this
    show ?thesis
    proof (cases i)
      case 0
      with c vowel_word [of c] show ?thesis by auto
    next
      case (Suc k)
      with 2(3) have "k < length cs" by simp
      then have "map_words (mask_banned bws) cs ! k =
          (if in_occurrence bws cs k \<and> isVowel (cs ! k) then cu CHR ''*'' else cs ! k)"
        by (rule 2(2) [OF c])
      with c Suc show ?thesis by (simp add: in_occurrence_Cons [OF bws c])
    qed
  next
    case True
    define w where "w = takeWhile isWordChar (c # cs)"
    define r where "r = dropWhile isWordChar (c # cs)"
    have s: "c # cs = w @ r" by (simp only: w_def r_def takeWhile_dropWhile_id)
    have w1: "w \<noteq> []" using True by (simp add: w_def)
    have w2: "\<forall>x\<in>set w. isWordChar x" unfolding w_def using set_takeWhileD by fast
    note w = w1 w2
    have r: "\<not> headIsWord r" unfolding r_def by (rule headIsWord_dropWhile)
    have m: "map_words (mask_banned bws) (c # cs) = mask_banned bws w @ map_words (mask_banned bws) r"
      by (simp only: map_words_word [OF True] w_def r_def)
    then have m': "map_words (mask_banned bws) (w @ r) = mask_banned bws w @ map_words (mask_banned bws) r"
      by (simp only: s)
    show ?thesis
    proof (cases "i < length w")
      case True
      then have "in_occurrence bws (w @ r) i = banned_in bws w"
        using in_occurrence_run [OF bws w r] by simp
      with True show ?thesis
        by (simp only: s m') (simp add: nth_append length_mask_banned mask_banned_def maskWord_def)
    next
      case False
      then have i: "length w \<le> i" by simp
      from 2(3) have i2: "i < length (w @ r)" by (simp only: s)
      then have "i - length w < length r" using i by simp
      then have "map_words (mask_banned bws) r ! (i - length w) =
          (if in_occurrence bws r (i - length w) \<and> isVowel (r ! (i - length w))
           then cu CHR ''*'' else r ! (i - length w))"
        unfolding r_def by (rule 2(1) [OF True])
      moreover have "in_occurrence bws (w @ r) i = in_occurrence bws r (i - length w)"
        using bws r i i2 by (rule in_occurrence_after_run)
      ultimately show ?thesis using False
        by (simp only: s m') (simp add: nth_append length_mask_banned)
    qed
  qed
qed

section \<open>What the sanitizer does to a text\<close>

lemma sanitize_str_Nil: "sanitize_str [] = []"
  by (simp add: sanitize_str_words)

lemma sanitizeText_Str: "sanitizeText (Str s) = Inr (Str (sanitize_str s))"
  by (simp add: sanitize_str_Nil)

lemma nth_sanitize_str:
  "i < length s \<Longrightarrow>
   sanitize_str s ! i =
     (if in_occurrence BAD_WORDS s i \<and> isVowel (s ! i) then cu CHR ''*'' else s ! i)"
proof -
  have "\<forall>bw\<in>set BAD_WORDS. bw \<noteq> [] \<and> (\<forall>x\<in>set bw. isWordChar x)"
    using BAD_WORDS_letters by blast
  then show "i < length s \<Longrightarrow> ?thesis"
    unfolding sanitize_str_words by (rule nth_map_words)
qed

text \<open>
  C1. On every string, \<open>sanitizeText\<close> returns a string of the same length in which a
  character is an asterisk exactly where the input has a vowel (\<open>a, e, i, o, u\<close>, either
  case) inside a whole-word occurrence, ignoring case, of a banned word, and is the
  character of the input everywhere else: the other characters of a matched word keep
  their value and case, the text outside the occurrences is untouched, and a banned word
  that is only part of a longer word, not an occurrence of its own, is not masked. A word
  is a maximal run of the word characters \<open>[A-Za-z0-9_]\<close> of the regular expression.
\<close>

theorem sanitizeText_masks_whole_words:
  "\<exists>t. sanitizeText (Str s) = Inr (Str t) \<and> length t = length s \<and>
     (\<forall>i<length s. t ! i =
        (if in_occurrence BAD_WORDS s i \<and> isVowel (s ! i) then cu CHR ''*'' else s ! i))"
  by (simp add: sanitizeText_Str sanitize_str_def length_fold_replace_re
      nth_sanitize_str [unfolded sanitize_str_def] del: sanitizeText.simps)

theorem sanitizeText_masks_whole_words_witness:
  "\<exists>t. sanitizeText (Str (js ''SHIT! assholes'')) = Inr (Str t) \<and> length t = 14 \<and>
     t ! 0 = cu CHR ''S'' \<and> t ! 2 = cu CHR ''*'' \<and> t ! 6 = cu CHR ''a''"
proof -
  let ?s = "js ''SHIT! assholes''"
  from sanitizeText_masks_whole_words [of ?s]
  obtain t where t: "sanitizeText (Str ?s) = Inr (Str t)" and len: "length t = length ?s"
    and pos: "\<forall>i<length ?s. t ! i =
        (if in_occurrence BAD_WORDS ?s i \<and> isVowel (?s ! i) then cu CHR ''*'' else ?s ! i)"
    by blast
  have l: "length ?s = 14" by code_simp
  have a: "\<not> isVowel (?s ! 0)" "?s ! 0 = cu CHR ''S''" by code_simp+
  have b: "in_occurrence BAD_WORDS ?s 2" "isVowel (?s ! 2)" by code_simp+
  have c: "\<not> in_occurrence BAD_WORDS ?s 6" "?s ! 6 = cu CHR ''a''" by code_simp+
  from pos l have "t ! 0 = cu CHR ''S''" "t ! 2 = cu CHR ''*''" "t ! 6 = cu CHR ''a''"
    using a b c by simp_all
  with t len l show ?thesis by simp
qed

text \<open>
  C4. \<open>sanitizeText\<close> is idempotent: on every string \<open>x\<close> it returns a string \<open>y\<close>, and
  applied to \<open>y\<close> it returns \<open>y\<close> again.
\<close>

theorem sanitizeText_idempotent:
  "\<exists>y. sanitizeText (Str x) = Inr (Str y) \<and> sanitizeText (Str y) = Inr (Str y)"
  by (simp add: sanitizeText_Str sanitize_str_idem del: sanitizeText.simps)

text \<open>
  C8. An absent argument (\<open>undefined\<close>, \<open>null\<close>) and the empty string are returned unchanged,
  and on no absent argument and no string does \<open>sanitizeText\<close> throw.
\<close>

theorem sanitizeText_absent_or_empty:
  "sanitizeText Undefined = Inr Undefined \<and> sanitizeText Null = Inr Null \<and>
   sanitizeText (Str []) = Inr (Str []) \<and> (\<exists>t. sanitizeText (Str s) = Inr (Str t))"
  by simp

section \<open>The drama scale\<close>

lemma and_then_Inr [simp]: "and_then (Inr v) f = f v"
  by (simp add: and_then_def)

lemma and_then_Inl [simp]: "and_then (Inl e) f = Inl e"
  by (simp add: and_then_def)

lemma and_then_eq_Inr:
  "and_then r f = Inr y \<longleftrightarrow> (\<exists>v. r = Inr v \<and> f v = Inr y)"
  by (cases r) auto

lemma js_inject: "js a = js b \<longleftrightarrow> a = b"
proof -
  have "inj cu"
  proof (rule injI)
    fix x y :: char
    assume "cu x = cu y"
    then have "unat (cu x) = unat (cu y)" by simp
    moreover have "\<And>c. unat (cu c) = of_char c"
    proof -
      fix c :: char
      have "(of_char c :: nat) < 256" by (rule nat_of_char_less_256)
      also have "(256 :: nat) < 65536" by simp
      finally have "(of_char c :: nat) < 65536" .
      then show "unat (cu c) = of_char c"
        by (simp add: cu_def unat_of_nat)
    qed
    ultimately show "x = y" by simp
  qed
  then show ?thesis by (simp add: js_def inj_map_eq_map)
qed

text \<open>
  C3, not as stated. The default branch of \<open>dramaInstructions\<close> returns a text of its
  own, which is not the text of level 3: drama \<open>"9"\<close> and drama \<open>"3"\<close> get different
  instructions. And the mapping is not total: on an object with a property \<open>toString\<close>
  of its own, \<open>String(drama)\<close> throws.
\<close>

theorem drama_default_text_counterexample:
  "dramaInstructions (Str (js ''9'')) \<noteq> dramaInstructions (Str (js ''3'')) \<and>
   mapDramaToTemp (Obj [(js ''toString'', Null)]) = Inl TypeError"
  by (simp add: dramaInstructions_def mapDramaToTemp_def js_inject)

text \<open>
  C3, as the code has it. When the string coercion of the input gives a string: \<open>"1"\<close> to
  \<open>"5"\<close> map to the temperatures 0.4, 0.55, 0.7, 0.85 and 1.0, and every other string
  (of an absent input, of an out-of-range one such as \<open>"9"\<close>, of a non-numeric one) gives
  the temperature 0.7 of level 3 and the default instruction text, which differs from the
  text of level 3. When the coercion throws, both functions throw.
\<close>

theorem drama_mapping:
  "(\<forall>s. String_js drama = Inr s \<longrightarrow>
      (s = js ''1'' \<longrightarrow> mapDramaToTemp drama = Inr (Frac (2 / 5) (js ''0.4''))) \<and>
      (s = js ''2'' \<longrightarrow> mapDramaToTemp drama = Inr (Frac (11 / 20) (js ''0.55''))) \<and>
      (s = js ''3'' \<longrightarrow> mapDramaToTemp drama = Inr (Frac (7 / 10) (js ''0.7''))) \<and>
      (s = js ''4'' \<longrightarrow> mapDramaToTemp drama = Inr (Frac (17 / 20) (js ''0.85''))) \<and>
      (s = js ''5'' \<longrightarrow> mapDramaToTemp drama = Inr (Whole 1)) \<and>
      (s \<notin> set (map js [''1'', ''2'', ''3'', ''4'', ''5'']) \<longrightarrow>
         mapDramaToTemp drama = Inr (Frac (7 / 10) (js ''0.7'')) \<and>
         dramaInstructions drama =
           Inr (js ''Narration style: Balanced detail, engaging but not theatrical.'') \<and>
         dramaInstructions drama \<noteq> dramaInstructions (Str (js ''3'')))) \<and>
   (\<forall>e. String_js drama = Inl e \<longrightarrow>
      mapDramaToTemp drama = Inl e \<and> dramaInstructions drama = Inl e)"
  by (simp add: dramaInstructions_def mapDramaToTemp_def js_inject)

theorem drama_mapping_witness:
  "mapDramaToTemp (Str (js ''9'')) = Inr (Frac (7 / 10) (js ''0.7'')) \<and>
   dramaInstructions (Str (js ''9'')) =
     Inr (js ''Narration style: Balanced detail, engaging but not theatrical.'') \<and>
   mapDramaToTemp (Num (Whole 4)) = Inr (Frac (17 / 20) (js ''0.85'')) \<and>
   mapDramaToTemp Undefined = Inr (Frac (7 / 10) (js ''0.7''))"
proof -
  have a: "String_js (Str (js ''9'')) = Inr (js ''9'')" by simp
  have b: "String_js (Num (Whole 4)) = Inr (js ''4'')" by code_simp
  have c: "String_js Undefined = Inr (js ''undefined'')" by simp
  have n: "js ''9'' \<notin> set (map js [''1'', ''2'', ''3'', ''4'', ''5''])"
    "js ''undefined'' \<notin> set (map js [''1'', ''2'', ''3'', ''4'', ''5''])"
    by (simp_all add: js_inject)
  show ?thesis
    using drama_mapping [of "Str (js ''9'')"] drama_mapping [of "Num (Whole 4)"]
      drama_mapping [of Undefined] a b c n
    by (simp del: String_js.simps)
qed

section \<open>The game endpoint: request and failure\<close>

lemma continue_not_ok:
  "build_payload body = Inr p \<Longrightarrow> fetch p = Response False raw parsed \<Longrightarrow>
   continue_handler fetch body =
     ([p], Reply 500 (Obj [(js ''error'', Str (js ''OpenAI error: '' @ raw))]))"
  by (simp add: continue_handler_def continue_try_def)


lemma continue_not_sent:
  "build_payload body = Inl e \<Longrightarrow> fst (continue_handler fetch body) = []"
  by (simp add: continue_handler_def continue_try_def)

lemma build_payload_empty_body:
  "build_payload (Obj []) =
     Inr (Payload (js ''gpt-4o-mini'')
       [system_message (baseStyle @ js ''\<newline>\<newline>'' @
          js ''Narration style: Balanced detail. Moderate description, engaging but not theatrical.''),
        user_message (Str [])]
       220 (Frac (7 / 10) (js ''0.7'')))"
proof -
  have "String_js (Num (Whole 3)) = Inr (js ''3'')" by code_simp
  then show ?thesis
    by (simp add: build_payload_def field_def styleMood_def styleDrama_def dramaInstructions_def
        mapDramaToTemp_def js_inject del: String_js.simps)
qed



text \<open>
  C6. When the completion service answers the payload with a response that is not ok, the
  handler replies with status 500 and an error string that carries the raw body of that
  response; the payload is the only request sent (no retry), and the handler returns this
  reply, nothing is thrown out of it.
\<close>

theorem continue_upstream_error:
  "build_payload body = Inr p \<Longrightarrow> fetch p = Response False raw parsed \<Longrightarrow>
   continue_handler fetch body =
     ([p], Reply 500 (Obj [(js ''error'', Str (js ''OpenAI error: '' @ raw))]))"
  by (rule continue_not_ok)

theorem continue_upstream_error_witness:
  "\<exists>p. build_payload (Obj []) = Inr p \<and>
     continue_handler (\<lambda>p. Response False (js ''quota'') None) (Obj []) =
       ([p], Reply 500 (Obj [(js ''error'', Str (js ''OpenAI error: quota''))]))"
  using continue_upstream_error [OF build_payload_empty_body, of "\<lambda>p. Response False (js ''quota'') None" "js ''quota''" None]
  by (simp add: build_payload_empty_body js_def)

text \<open>
  C7. The reply of the handler to an upstream error has no property \<open>text\<close>: on the empty
  request body and an upstream response 401 with body \<open>Unauthorized\<close> the reply is the
  object with the single property \<open>error\<close>. Only the reply of the outer \<open>catch\<close> has
  a \<open>text\<close>.
\<close>

theorem continue_upstream_error_without_text:
  "snd (continue_handler (\<lambda>p. Response False (js ''Unauthorized'') None) (Obj [])) =
     Reply 500 (Obj [(js ''error'', Str (js ''OpenAI error: Unauthorized''))]) \<and>
   get_prop (Obj [(js ''error'', Str (js ''OpenAI error: Unauthorized''))]) (js ''text'') = Inr Undefined"
  using continue_not_ok [OF build_payload_empty_body, of "\<lambda>p. Response False (js ''Unauthorized'') None" "js ''Unauthorized''" None]
  by (simp add: js_inject) (simp add: js_def)

section \<open>The game endpoint: the text of the reply\<close>

lemma respond_ok_nonempty:
  assumes "respond (Response True raw parsed) = Inr r"
  shows "\<exists>t. r = Reply 200 (Obj [(js ''text'', Str t)]) \<and> t \<noteq> []"
proof -
  let ?x = "text_after_try parsed"
  from assms obtain b out where b: "blank ?x = Inr b"
    and s: "sanitizeText (if b then Str FALLBACK else ?x) = Inr out"
    and r: "r = Reply 200 (Obj [(js ''text'', out)])"
    by (auto simp: and_then_eq_Inr)
  have f: "FALLBACK \<noteq> []" by (simp add: FALLBACK_def js_def)
  have "\<exists>s. (if b then Str FALLBACK else ?x) = Str s \<and> s \<noteq> []"
  proof (cases b)
    case True
    with f show ?thesis by simp
  next
    case False
    with b show ?thesis by (cases ?x) (auto split: if_splits)
  qed
  then obtain u where u: "(if b then Str FALLBACK else ?x) = Str u" "u \<noteq> []" by blast
  with s have "out = Str (sanitize_str u)" by (simp add: sanitizeText_Str del: sanitizeText.simps)
  moreover have "length (sanitize_str u) = length u"
    by (simp add: sanitize_str_def length_fold_replace_re)
  ultimately show ?thesis using r u(2) by auto
qed

lemma continue_success_text_nonempty:
  assumes "continue_handler fetch body = (sent, Reply 200 j)"
  shows "\<exists>t. j = Obj [(js ''text'', Str t)] \<and> t \<noteq> []"
proof -
  from assms obtain p where p: "build_payload body = Inr p"
    and r: "respond (fetch p) = Inr (Reply 200 j)"
    by (auto simp: continue_handler_def continue_try_def split: sum.splits)
  from r obtain raw parsed where f: "fetch p = Response True raw parsed"
    by (cases "fetch p") (auto split: if_splits)
  with r respond_ok_nonempty [of raw parsed "Reply 200 j"] show ?thesis by simp
qed

lemma continue_ok:
  "build_payload body = Inr p \<Longrightarrow> fetch p = Response True raw parsed \<Longrightarrow>
   snd (continue_handler fetch body) =
     (case respond (Response True raw parsed) of
        Inr r \<Rightarrow> r
      | Inl e \<Rightarrow> Reply 500 (Obj [(js ''error'', Str (js ''Server error'')),
                                 (js ''text'', Str (js ''(Server fallback)''))]))"
  by (simp add: continue_handler_def continue_try_def split: sum.splits)

lemma sanitize_ellipsis: "sanitize_str ellipsis = ellipsis"
  by code_simp

lemma trim_ellipsis: "trim ellipsis = ellipsis"
  by code_simp

text \<open>
  C2. \<open>text\<close> starts as the ellipsis, which is neither empty nor blank, so the test before
  the fallback sentence never fires for a body that does not parse or that has neither
  text field: the reply carries the ellipsis, not the fallback sentence. The fallback is
  reached only by a text of white space. The text of a reply with status 200 is never
  empty (\<open>continue_success_text_nonempty\<close> above).
\<close>

theorem continue_unparsable_body:
  "snd (continue_handler (\<lambda>p. Response True (js ''oops'') None) (Obj [])) =
     Reply 200 (Obj [(js ''text'', Str ellipsis)]) \<and>
   snd (continue_handler (\<lambda>p. Response True (js ''{}'') (Some (Obj []))) (Obj [])) =
     Reply 200 (Obj [(js ''text'', Str ellipsis)]) \<and>
   ellipsis \<noteq> FALLBACK"
proof -
  have e: "ellipsis \<noteq> []" "ellipsis \<noteq> FALLBACK"
    by (simp_all add: ellipsis_def FALLBACK_def js_def)
  have a: "text_after_try None = Str ellipsis" by (simp add: text_after_try_def)
  have b: "text_after_try (Some (Obj [])) = Str ellipsis"
    by (simp add: text_after_try_def extract_text_def)
  have r: "\<And>raw parsed. text_after_try parsed = Str ellipsis \<Longrightarrow>
      respond (Response True raw parsed) = Inr (Reply 200 (Obj [(js ''text'', Str ellipsis)]))"
    using e(1) by (simp add: trim_ellipsis sanitize_ellipsis)
  show ?thesis
    using continue_ok [OF build_payload_empty_body, of "\<lambda>p. Response True (js ''oops'') None" "js ''oops''" None]
      continue_ok [OF build_payload_empty_body, of "\<lambda>p. Response True (js ''{}'') (Some (Obj []))" "js ''{}''" "Some (Obj [])"]
      r [OF a] r [OF b] e(2)
    by (simp del: respond.simps)
qed

lemma continue_blank_text_falls_back:
  "snd (continue_handler (\<lambda>p. Response True raw (Some (Obj [(js ''output_text'', Str (js '' ''))]))) (Obj [])) =
     Reply 200 (Obj [(js ''text'', Str FALLBACK)])"
proof -
  have t: "text_after_try (Some (Obj [(js ''output_text'', Str (js '' ''))])) = Str (js '' '')"
    by (simp add: text_after_try_def extract_text_def) (simp add: js_def)
  have b: "trim (js '' '') = []" by code_simp
  have s: "sanitize_str FALLBACK = FALLBACK" by code_simp
  have f: "FALLBACK \<noteq> []" by (simp add: FALLBACK_def js_def)
  have "respond (Response True raw (Some (Obj [(js ''output_text'', Str (js '' ''))]))) =
      Inr (Reply 200 (Obj [(js ''text'', Str FALLBACK)]))"
    using t b s f by simp
  with continue_ok [OF build_payload_empty_body,
      of "\<lambda>p. Response True raw (Some (Obj [(js ''output_text'', Str (js '' ''))]))" raw
        "Some (Obj [(js ''output_text'', Str (js '' ''))])"]
  show ?thesis by (simp del: respond.simps)
qed

section \<open>The storyboard: the stored drama\<close>

lemma StringToNumber_high: "StringToNumber rest (js ''high'') = NaN"
proof -
  have "js ''high'' \<noteq> []" "\<not> list_all isDigit (js ''high'')"
    "list_ex (\<lambda>c. \<not> numeric_char c) (js ''high'')"
    by code_simp+
  then show ?thesis by (simp add: StringToNumber_def)
qed

lemma sanitizeText_Inr_Str:
  "truthy v \<Longrightarrow> sanitizeText v = Inr t \<Longrightarrow> \<exists>s. t = Str s"
  by (cases v) (auto split: if_splits)

lemma share_build_sent:
  assumes "share_build rest body = Inr (Insert sent)"
    and "get_prop body (js ''drama'') = Inr drama"
  shows "\<exists>n t m c a. Number_js rest drama = Inr n \<and>
    sent = Arr [Obj [(js ''title'', Str t), (js ''mood'', Str m),
                     (js ''drama'', json_value (Num (if truthy (Num n) then n else Whole 3))),
                     (js ''content'', Str c), (js ''author'', Str a)]]"
proof -
  from assms obtain title mood content author t m n c a where
    ti: "truthy title" and co: "truthy content"
    and t: "sanitizeText title = Inr t"
    and m: "sanitizeText (or_js mood (Str [])) = Inr m"
    and n: "Number_js rest drama = Inr n"
    and c: "sanitizeText content = Inr c"
    and a: "sanitizeText (or_js author (Str (js ''Anon''))) = Inr a"
    and s: "sent = json_value (Arr
             [Obj [(js ''title'', t), (js ''mood'', m),
                   (js ''drama'', Num (if truthy (Num n) then n else Whole 3)),
                   (js ''content'', c), (js ''author'', a)]])"
    by (auto simp: share_build_def and_then_eq_Inr split: if_splits)
  from ti t obtain t' where t': "t = Str t'" using sanitizeText_Inr_Str by blast
  from co c obtain c' where c': "c = Str c'" using sanitizeText_Inr_Str by blast
  have "\<exists>m'. m = Str m'"
  proof (cases "truthy mood")
    case True
    with m show ?thesis using sanitizeText_Inr_Str [of mood m] by (simp add: or_js_def)
  next
    case False
    with m show ?thesis by (auto simp: or_js_def)
  qed
  then obtain m' where m': "m = Str m'" by blast
  have "\<exists>a'. a = Str a'"
  proof (cases "truthy author")
    case True
    with a show ?thesis using sanitizeText_Inr_Str [of author a] by (simp add: or_js_def)
  next
    case False
    with a show ?thesis by (auto simp: or_js_def split: if_splits)
  qed
  then obtain a' where a': "a = Str a'" by blast
  from s t' c' m' a' n show ?thesis by simp
qed

text \<open>
  C10, not as stated. A drama of \<open>1e999\<close> is parsed as \<open>Infinity\<close>; \<open>Number(drama)\<close> is
  \<open>Infinity\<close>, which is truthy, and the body that goes to the store holds \<open>null\<close> for it,
  not the number.
\<close>

theorem share_drama_infinity_counterexample:
  "share_build (\<lambda>s. NaN)
     (Obj [(js ''title'', Str (js ''T'')), (js ''content'', Str (js ''C'')),
           (js ''drama'', Num PosInf)]) =
   Inr (Insert (Arr [Obj [(js ''title'', Str (js ''T'')), (js ''mood'', Str []),
                          (js ''drama'', Null), (js ''content'', Str (js ''C'')),
                          (js ''author'', Str (js ''Anon''))]])) \<and>
   Number_js (\<lambda>s. NaN) (Num PosInf) = Inr PosInf \<and> truthy (Num PosInf)"
proof -
  have s: "sanitize_str (js ''T'') = js ''T''" "sanitize_str (js ''C'') = js ''C''"
    "sanitize_str (js ''Anon'') = js ''Anon''"
    by code_simp+
  have ne: "js ''T'' \<noteq> []" "js ''C'' \<noteq> []" "js ''Anon'' \<noteq> []" by (simp_all add: js_def)
  show ?thesis using s ne by (simp add: share_build_def or_js_def js_inject)
qed

text \<open>
  C10, as the code has it. In the body that the share handler posts to the store, the drama
  is \<open>Number(drama)\<close> when that number is truthy and finite, \<open>null\<close> when it is \<open>Infinity\<close>
  or \<open>-Infinity\<close>, and 3 otherwise: an absent, \<open>null\<close>, zero, empty or non-numeric drama
  becomes 3, and every other finite number, 9 included, is stored as it is, whereas the
  game endpoint treats 9 like level 3.
\<close>

theorem share_drama:
  assumes "share_build rest body = Inr (Insert sent)"
    and "get_prop body (js ''drama'') = Inr drama"
  shows "\<exists>n row. Number_js rest drama = Inr n \<and> sent = Arr [row] \<and>
    get_prop row (js ''drama'') =
      Inr (if \<not> truthy (Num n) then Num (Whole 3)
           else if n = PosInf \<or> n = NegInf then Null else Num n) \<and>
    (drama \<in> {Undefined, Null, Num (Whole 0), Str [], Str (js ''high'')} \<longrightarrow>
       get_prop row (js ''drama'') = Inr (Num (Whole 3))) \<and>
    (\<forall>m. drama = Num m \<and> truthy (Num m) \<and> m \<noteq> PosInf \<and> m \<noteq> NegInf \<longrightarrow>
       get_prop row (js ''drama'') = Inr (Num m)) \<and>
    (drama = Num (Whole 9) \<longrightarrow>
       get_prop row (js ''drama'') = Inr (Num (Whole 9)) \<and>
       mapDramaToTemp drama = mapDramaToTemp (Num (Whole 3))) \<and>
    (drama = Num PosInf \<or> drama = Num NegInf \<longrightarrow> get_prop row (js ''drama'') = Inr Null)"
proof -
  from share_build_sent [OF assms] obtain n t m c a where
    n: "Number_js rest drama = Inr n"
    and s: "sent = Arr [Obj [(js ''title'', Str t), (js ''mood'', Str m),
                     (js ''drama'', json_value (Num (if truthy (Num n) then n else Whole 3))),
                     (js ''content'', Str c), (js ''author'', Str a)]]"
    by blast
  let ?row = "Obj [(js ''title'', Str t), (js ''mood'', Str m),
                     (js ''drama'', json_value (Num (if truthy (Num n) then n else Whole 3))),
                     (js ''content'', Str c), (js ''author'', Str a)]"
  have g: "get_prop ?row (js ''drama'') =
      Inr (json_value (Num (if truthy (Num n) then n else Whole 3)))"
    by (simp add: js_inject)
  have j: "json_value (Num (if truthy (Num n) then n else Whole 3)) =
      (if \<not> truthy (Num n) then Num (Whole 3)
       else if n = PosInf \<or> n = NegInf then Null else Num n)"
    by (cases n) auto
  have nine: "mapDramaToTemp (Num (Whole 9)) = mapDramaToTemp (Num (Whole 3))"
  proof -
    have "String_js (Num (Whole 9)) = Inr (js ''9'')" "String_js (Num (Whole 3)) = Inr (js ''3'')"
      by code_simp+
    then show ?thesis by (simp add: mapDramaToTemp_def js_inject del: String_js.simps)
  qed
  have d: "get_prop ?row (js ''drama'') =
      Inr (if \<not> truthy (Num n) then Num (Whole 3)
           else if n = PosInf \<or> n = NegInf then Null else Num n)"
    using g j by simp
  have a: "drama \<in> {Undefined, Null, Num (Whole 0), Str [], Str (js ''high'')} \<longrightarrow>
       get_prop ?row (js ''drama'') = Inr (Num (Whole 3))"
    unfolding d using n by (auto simp: StringToNumber_high) (auto simp: StringToNumber_def)
  have b: "\<forall>m. drama = Num m \<and> truthy (Num m) \<and> m \<noteq> PosInf \<and> m \<noteq> NegInf \<longrightarrow>
       get_prop ?row (js ''drama'') = Inr (Num m)"
    unfolding d using n by auto
  have c: "drama = Num (Whole 9) \<longrightarrow>
       get_prop ?row (js ''drama'') = Inr (Num (Whole 9)) \<and>
       mapDramaToTemp drama = mapDramaToTemp (Num (Whole 3))"
    unfolding d using n nine by auto
  have e: "drama = Num PosInf \<or> drama = Num NegInf \<longrightarrow> get_prop ?row (js ''drama'') = Inr Null"
    unfolding d using n by auto
  from n s d a b c e show ?thesis by blast
qed

theorem share_drama_witness:
  "\<forall>rest. \<exists>row.
     share_build rest (Obj [(js ''title'', Str (js ''T'')), (js ''content'', Str (js ''C'')),
                            (js ''drama'', Num (Whole 9))]) = Inr (Insert (Arr [row])) \<and>
     get_prop row (js ''drama'') = Inr (Num (Whole 9))"
proof
  fix rest
  let ?body = "Obj [(js ''title'', Str (js ''T'')), (js ''content'', Str (js ''C'')),
                    (js ''drama'', Num (Whole 9))]"
  let ?row = "Obj [(js ''title'', Str (js ''T'')), (js ''mood'', Str []),
                   (js ''drama'', Num (Whole 9)), (js ''content'', Str (js ''C'')),
                   (js ''author'', Str (js ''Anon''))]"
  have s: "sanitize_str (js ''T'') = js ''T''" "sanitize_str (js ''C'') = js ''C''"
    "sanitize_str (js ''Anon'') = js ''Anon''"
    by code_simp+
  have ne: "js ''T'' \<noteq> []" "js ''C'' \<noteq> []" "js ''Anon'' \<noteq> []" by (simp_all add: js_def)
  have b: "share_build rest ?body = Inr (Insert (Arr [?row]))"
    using s ne by (simp add: share_build_def or_js_def js_inject)
  have d: "get_prop ?body (js ''drama'') = Inr (Num (Whole 9))" by (simp add: js_inject)
  from share_drama [OF b d] have "get_prop ?row (js ''drama'') = Inr (Num (Whole 9))"
    by auto
  with b show "\<exists>row. share_build rest ?body = Inr (Insert (Arr [row])) \<and>
      get_prop row (js ''drama'') = Inr (Num (Whole 9))"
    by blast
qed

end
